theory Spec2Isabelle
  imports Main "HOL-Library.AList" "HOL-Library.Sublist"
begin

section \<open>Data model of the OTP service (src/index.js)\<close>

text \<open>
  A stored OTP is the object literal written by the send handler, plus the field
  \<open>verifiedAt\<close> that the verify handler adds later (absent until then). Timestamps are
  readings of \<open>Date.now()\<close>: integer milliseconds.
\<close>

record otp_record =
  phoneNumber :: string
  otp :: string
  expiresAt :: int
  verified :: bool
  createdAt :: int
  verifiedAt :: "int option"

text \<open>
  \<open>otpStorage\<close> is a JavaScript \<open>Map\<close>: keys are unique and iteration follows insertion
  order. It is an association list whose keys are distinct; \<open>Map.get\<close> is \<open>map_of\<close>,
  \<open>Map.set\<close> is \<open>AList.update\<close> (an existing key keeps its position, a new key goes to
  the end), \<open>Map.delete\<close> is \<open>AList.delete\<close>, \<open>Map.size\<close> is \<open>length\<close>.
\<close>

type_synonym otpStorage = "(string \<times> otp_record) list"

definition wf_storage :: "otpStorage \<Rightarrow> bool" where
  "wf_storage store = distinct (map fst store)"

text \<open>
  A field of a request body is a string or absent. \<open>present\<close> is JavaScript truthiness
  on such a field: absent and the empty string are both falsy.
\<close>

fun present :: "string option \<Rightarrow> string option" where
  "present None = None"
| "present (Some s) = (if s = [] then None else Some s)"

datatype error_kind =
    MissingPhone      \<comment> \<open>400 'Phone number is required'\<close>
  | NotConnected      \<comment> \<open>400 'WhatsApp not connected. Please connect WhatsApp first.'\<close>
  | DeliveryFailed    \<comment> \<open>500 'Failed to send OTP via WhatsApp'\<close>
  | MissingCode       \<comment> \<open>400 'OTP is required'\<close>
  | NotFound          \<comment> \<open>400 'OTP not found'\<close>
  | Expired           \<comment> \<open>400 'OTP has expired'\<close>
  | AlreadyConsumed   \<comment> \<open>400 'OTP already verified'\<close>
  | CodeMismatch      \<comment> \<open>400 'Invalid OTP'\<close>

section \<open>Helpers\<close>

subsection \<open>Number.prototype.toString on integers\<close>

definition digit_char :: "nat \<Rightarrow> char" where
  "digit_char d = ''0123456789'' ! (d mod 10)"

fun digits :: "nat \<Rightarrow> string" where
  "digits n = (if n < 10 then [digit_char n] else digits (n div 10) @ [digit_char (n mod 10)])"

declare digits.simps [simp del]

definition toString :: "int \<Rightarrow> string" where
  "toString i = (if i < 0 then CHR ''-'' # digits (nat (- i)) else digits (nat i))"

text \<open>
  \<open>generateOTP\<close>: the argument stands for the integer
  \<open>Math.floor(100000 + Math.random() * 900000)\<close>, a random draw of the environment.
\<close>

definition generateOTP :: "nat \<Rightarrow> string" where
  "generateOTP draw = toString (int draw)"

subsection \<open>formatPhoneNumber\<close>

definition isDigit :: "char \<Rightarrow> bool" where
  "isDigit c = (c \<in> set ''0123456789'')"

text \<open>\<open>s.replace(/\D/g, '')\<close>: every character that is not one of 0..9 is dropped.\<close>

fun stripNonDigits :: "string \<Rightarrow> string" where
  "stripNonDigits [] = []"
| "stripNonDigits (c # cs) = (if isDigit c then c # stripNonDigits cs else stripNonDigits cs)"

definition formatPhoneNumber :: "string \<Rightarrow> string" where
  "formatPhoneNumber pn =
     (let formatted = stripNonDigits pn;
          formatted' = (if \<not> prefix ''91'' formatted \<and> length formatted = 10
                        then ''91'' @ formatted else formatted)
      in formatted' @ ''@c.us'')"

text \<open>
  The address normalization as the specification words it: the prefix is added whenever
  exactly ten digits remain.
\<close>

definition normalize_spec :: "string \<Rightarrow> string" where
  "normalize_spec pn =
     (let ds = filter isDigit pn
      in (if length ds = 10 then ''91'' @ ds else ds) @ ''@c.us'')"

subsection \<open>String.prototype.replace with a string pattern: the first occurrence only\<close>

fun replaceFirst :: "string \<Rightarrow> string \<Rightarrow> string \<Rightarrow> string" where
  "replaceFirst pat rep [] = (if pat = [] then rep else [])"
| "replaceFirst pat rep (c # cs) =
     (if prefix pat (c # cs) then rep @ drop (length pat) (c # cs)
      else c # replaceFirst pat rep cs)"

definition defaultMessage :: "string \<Rightarrow> string" where
  "defaultMessage code =
     ''Your OTP is: '' @ code @ [CHR 0x0A, CHR 0x0A] @
     ''This OTP will expire in 5 minutes.'' @ [CHR 0x0A, CHR 0x0A] @
     ''- WhatsApp OTP Service''"

section \<open>POST /api/send-otp\<close>

text \<open>
  What the handler reads from its environment, in the order it reads it: the two
  connection globals, the random draw of \<open>generateOTP\<close>, the clock and the random
  suffix that make up the id, then (after the message was sent) the clock reading used
  for \<open>expiryTime\<close> and the separate clock reading stored as \<open>createdAt\<close>.
\<close>

record send_env =
  whatsappClient :: bool       \<comment> \<open>\<open>whatsappClient\<close> is not null\<close>
  whatsappConnected :: bool
  draw :: nat
  idClock :: int
  idSuffix :: string           \<comment> \<open>\<open>Math.random().toString(36).substr(2, 9)\<close>\<close>
  expiryClock :: int
  createdClock :: int

record send_ok =
  sent_otpId :: string
  sent_phoneNumber :: string

definition mkOtpId :: "send_env \<Rightarrow> string" where
  "mkOtpId env = ''otp_'' @ toString (idClock env) @ ''_'' @ idSuffix env"

definition mkRecord :: "send_env \<Rightarrow> string \<Rightarrow> otp_record" where
  "mkRecord env pn =
     \<lparr> phoneNumber = pn,
       otp = generateOTP (draw env),
       expiresAt = expiryClock env + (5 * 60 * 1000),
       verified = False,
       createdAt = createdClock env,
       verifiedAt = None \<rparr>"

text \<open>
  \<open>sendMessage address text\<close> tells whether the transport's promise resolves (\<open>True\<close>)
  or rejects (\<open>False\<close>). The handler touches the storage only after the promise has
  resolved; \<open>store\<close> is the storage at that moment. The result is the response and the
  storage afterwards. On success the handler also arms a one-shot timer that deletes the
  id 5 minutes later; its firing is the operation \<open>timerFire\<close> below.
\<close>

definition send_otp ::
  "send_env \<Rightarrow> (string \<Rightarrow> string \<Rightarrow> bool) \<Rightarrow> otpStorage \<Rightarrow> string option \<Rightarrow> string option
     \<Rightarrow> (error_kind + send_ok) \<times> otpStorage" where
  "send_otp env sendMessage store phoneNumberF messageF =
     (case present phoneNumberF of
        None \<Rightarrow> (Inl MissingPhone, store)
      | Some pn \<Rightarrow>
          if \<not> whatsappClient env \<or> \<not> whatsappConnected env then (Inl NotConnected, store)
          else
            let code = generateOTP (draw env);
                otpId = mkOtpId env;
                formattedNumber = formatPhoneNumber pn;
                otpMessage = (case present messageF of
                                Some m \<Rightarrow> replaceFirst ''{otp}'' code m
                              | None \<Rightarrow> defaultMessage code)
            in if sendMessage formattedNumber otpMessage
               then (Inr \<lparr> sent_otpId = otpId, sent_phoneNumber = pn \<rparr>,
                     AList.update otpId (mkRecord env pn) store)
               else (Inl DeliveryFailed, store))"

definition timerFire :: "string \<Rightarrow> otpStorage \<Rightarrow> otpStorage" where
  "timerFire otpId store = AList.delete otpId store"

text \<open>
  The call of \<open>sendMessage\<close> that a request leads to, if it gets that far: the address
  and the text. A delivery succeeded when that call was made and resolved; it failed
  when the call was made and rejected.
\<close>

definition sendAttempt :: "send_env \<Rightarrow> string option \<Rightarrow> string option \<Rightarrow> (string \<times> string) option" where
  "sendAttempt env phoneNumberF messageF =
     (case present phoneNumberF of
        None \<Rightarrow> None
      | Some pn \<Rightarrow>
          if \<not> whatsappClient env \<or> \<not> whatsappConnected env then None
          else Some (formatPhoneNumber pn,
                     (case present messageF of
                        Some m \<Rightarrow> replaceFirst ''{otp}'' (generateOTP (draw env)) m
                      | None \<Rightarrow> defaultMessage (generateOTP (draw env)))))"

definition deliverySucceeded ::
  "send_env \<Rightarrow> (string \<Rightarrow> string \<Rightarrow> bool) \<Rightarrow> string option \<Rightarrow> string option \<Rightarrow> bool" where
  "deliverySucceeded env sendMessage phoneNumberF messageF =
     (case sendAttempt env phoneNumberF messageF of
        None \<Rightarrow> False
      | Some (address, text) \<Rightarrow> sendMessage address text)"






section \<open>POST /api/verify-otp\<close>

text \<open>
  The scan by phone number. The loop state is \<open>(latestTime, otpRecord)\<close>; the entry is
  kept together with its key, since the handler later writes to that very object.
\<close>

fun scanLatest ::
  "string \<Rightarrow> otpStorage \<Rightarrow> int \<times> (string \<times> otp_record) option
     \<Rightarrow> int \<times> (string \<times> otp_record) option" where
  "scanLatest pn [] st = st"
| "scanLatest pn ((k, r) # es) (latestTime, otpRecord) =
     scanLatest pn es
       (if phoneNumber r = pn \<and> createdAt r > latestTime \<and> \<not> verified r
        then (createdAt r, Some (k, r))
        else (latestTime, otpRecord))"

definition findByPhone :: "string \<Rightarrow> otpStorage \<Rightarrow> (string \<times> otp_record) option" where
  "findByPhone pn store = snd (scanLatest pn store (0, None))"

text \<open>
  The latest-pending lookup as the specification's testable property words it: only
  records that are neither consumed nor expired at lookup time qualify.
\<close>

definition pending_spec :: "string \<Rightarrow> int \<Rightarrow> otp_record \<Rightarrow> bool" where
  "pending_spec pn now r = (phoneNumber r = pn \<and> \<not> verified r \<and> \<not> expiresAt r < now)"

definition resolve :: "otpStorage \<Rightarrow> string option \<Rightarrow> string option \<Rightarrow> (string \<times> otp_record) option" where
  "resolve store otpIdF phoneNumberF =
     (case present otpIdF of
        Some i \<Rightarrow> map_option (Pair i) (map_of store i)
      | None \<Rightarrow>
          (case present phoneNumberF of
             Some pn \<Rightarrow> findByPhone pn store
           | None \<Rightarrow> None))"

text \<open>
  The handler reads the clock three times: for the expiry check, for \<open>verifiedAt\<close> of
  the record, and for the \<open>verifiedAt\<close> of the response.
\<close>

record verify_env =
  checkClock :: int
  markClock :: int
  respClock :: int

record verify_ok =
  ok_phoneNumber :: string
  ok_verifiedAt :: int

definition verify_otp ::
  "verify_env \<Rightarrow> otpStorage \<Rightarrow> string option \<Rightarrow> string option \<Rightarrow> string option
     \<Rightarrow> (error_kind + verify_ok) \<times> otpStorage" where
  "verify_otp env store otpIdF otpF phoneNumberF =
     (case present otpF of
        None \<Rightarrow> (Inl MissingCode, store)
      | Some code \<Rightarrow>
          (case resolve store otpIdF phoneNumberF of
             None \<Rightarrow> (Inl NotFound, store)
           | Some (k, r) \<Rightarrow>
               if expiresAt r < checkClock env then (Inl Expired, store)
               else if verified r then (Inl AlreadyConsumed, store)
               else if otp r \<noteq> code then (Inl CodeMismatch, store)
               else (Inr \<lparr> ok_phoneNumber = phoneNumber r, ok_verifiedAt = respClock env \<rparr>,
                     AList.update k (r\<lparr> verified := True, verifiedAt := Some (markClock env) \<rparr>) store)))"

section \<open>The periodic sweep\<close>

text \<open>
  The loop walks the entries of the map and deletes the current key when its record has
  expired. Deleting the current entry does not disturb the iteration, so every entry
  present at the start is visited once.
\<close>

definition sweep :: "int \<Rightarrow> otpStorage \<Rightarrow> otpStorage" where
  "sweep now store =
     fold (\<lambda>(k, r) m. if expiresAt r < now then AList.delete k m else m) store store"

section \<open>Reachable storages\<close>

text \<open>
  The storages the running service can hold: it starts empty and is changed only by the
  two handlers, the per-record timers and the sweep.
\<close>

inductive reachable :: "otpStorage \<Rightarrow> bool" where
  r_init: "reachable []"
| r_send: "reachable s \<Longrightarrow> reachable (snd (send_otp env sendMessage s pnF msgF))"
| r_verify: "reachable s \<Longrightarrow> reachable (snd (verify_otp venv s idF otpF pnF))"
| r_timer: "reachable s \<Longrightarrow> reachable (timerFire k s)"
| r_sweep: "reachable s \<Longrightarrow> reachable (sweep now s)"

text \<open>What holds of every record the send handler has stored.\<close>

definition issued :: "string \<times> otp_record \<Rightarrow> bool" where
  "issued e = (fst e \<noteq> [] \<and> otp (snd e) \<noteq> [] \<and> phoneNumber (snd e) \<noteq> []
               \<and> (verified (snd e) \<longleftrightarrow> verifiedAt (snd e) \<noteq> None))"

text \<open>What the scan by phone number asks of a record: same number, not verified.\<close>

definition pendingFor :: "string \<Rightarrow> otp_record \<Rightarrow> bool" where
  "pendingFor pn r = (phoneNumber r = pn \<and> \<not> verified r)"

text \<open>Overwriting the \<open>expiresAt\<close> of an entry, by any rule \<open>f\<close>.\<close>

definition setExpiry :: "(string \<Rightarrow> otp_record \<Rightarrow> int) \<Rightarrow> string \<times> otp_record \<Rightarrow> string \<times> otp_record" where
  "setExpiry f e = (fst e, (snd e)\<lparr> expiresAt := f (fst e) (snd e) \<rparr>)"

section \<open>Example data\<close>

text \<open>A record as the send handler writes it: not verified, no \<open>verifiedAt\<close>.\<close>

definition pendingRecord :: "string \<Rightarrow> string \<Rightarrow> int \<Rightarrow> int \<Rightarrow> otp_record" where
  "pendingRecord pn code created expires =
     \<lparr> phoneNumber = pn, otp = code, expiresAt = expires, verified = False,
       createdAt = created, verifiedAt = None \<rparr>"

text \<open>
  One run of the send handler on the empty storage: connected, the transport accepts
  the message, the clock reads 1000 for the id and 1002 afterwards.
\<close>

definition exampleEnv :: send_env where
  "exampleEnv = \<lparr> whatsappClient = True, whatsappConnected = True, draw = 123456,
                  idClock = 1000, idSuffix = ''k3j9x0a1b'', expiryClock = 1002,
                  createdClock = 1002 \<rparr>"

definition exampleStore :: otpStorage where
  "exampleStore = snd (send_otp exampleEnv (\<lambda>address text. True) [] (Some ''9876543210'') None)"

section \<open>Basic facts\<close>

lemma digits_nonempty: "digits n \<noteq> []"
  by (subst digits.simps) simp

lemma generateOTP_nonempty: "generateOTP n \<noteq> []"
  by (simp add: generateOTP_def toString_def digits_nonempty)

lemma mkOtpId_nonempty: "mkOtpId env \<noteq> []"
  by (simp add: mkOtpId_def)

lemma present_Some: "present f = Some s \<longleftrightarrow> f = Some s \<and> s \<noteq> []"
  by (cases f) auto

lemma present_None: "present f = None \<longleftrightarrow> f = None \<or> f = Some []"
  by (cases f) auto

lemma stripNonDigits_filter: "stripNonDigits s = filter isDigit s"
  by (induction s) auto

lemma set_update_subset: "set (AList.update k v al) \<subseteq> insert (k, v) (set al)"
  by (induction al) auto

subsection \<open>The sweep loop as a filter\<close>

lemma fold_sweep_filter:
  "fold (\<lambda>(k, r) m. if expiresAt r < now then AList.delete k m else m) es m
     = filter (\<lambda>e. \<not> (\<exists>r. (fst e, r) \<in> set es \<and> expiresAt r < now)) m"
proof (induction es arbitrary: m)
  case Nil
  then show ?case by simp
next
  case (Cons e es)
  obtain k r where e: "e = (k, r)" by (cases e)
  show ?case
    by (auto simp: e Cons.IH AList.delete_eq intro!: filter_cong)
qed

lemma sweep_filter:
  assumes "wf_storage store"
  shows "sweep now store = filter (\<lambda>e. \<not> expiresAt (snd e) < now) store"
proof -
  have "\<And>e. e \<in> set store \<Longrightarrow>
      (\<exists>r. (fst e, r) \<in> set store \<and> expiresAt r < now) = (expiresAt (snd e) < now)"
    using assms unfolding wf_storage_def
    by (metis eq_key_imp_eq_value prod.collapse)
  then show ?thesis
    unfolding sweep_def fold_sweep_filter by (auto intro!: filter_cong)
qed

subsection \<open>The scan by phone number\<close>

text \<open>
  Either the loop state is untouched and no pending record of the number is newer than
  \<open>latestTime\<close>, or the result is an entry that is strictly newer than every pending
  entry before it and at least as new as every pending entry after it.
\<close>

lemma scanLatest_cases:
  "scanLatest pn es (t, acc) = (t', acc') \<Longrightarrow>
     (t' = t \<and> acc' = acc \<and> (\<forall>e\<in>set es. pendingFor pn (snd e) \<longrightarrow> createdAt (snd e) \<le> t))
   \<or> (\<exists>pre k r post. es = pre @ (k, r) # post \<and> acc' = Some (k, r) \<and> t' = createdAt r
         \<and> pendingFor pn r \<and> t < createdAt r
         \<and> (\<forall>e\<in>set pre. pendingFor pn (snd e) \<longrightarrow> createdAt (snd e) < createdAt r)
         \<and> (\<forall>e\<in>set post. pendingFor pn (snd e) \<longrightarrow> createdAt (snd e) \<le> createdAt r))"
proof (induction es arbitrary: t acc)
  case Nil
  then show ?case by simp
next
  case (Cons e es)
  obtain k r where e: "e = (k, r)" by (cases e)
  show ?case
  proof (cases "pendingFor pn r \<and> t < createdAt r")
    case True
    then have run: "scanLatest pn es (createdAt r, Some (k, r)) = (t', acc')"
      using Cons.prems by (simp add: e pendingFor_def)
    from Cons.IH [OF run] show ?thesis
    proof (elim disjE exE conjE)
      assume "t' = createdAt r" "acc' = Some (k, r)"
        "\<forall>e\<in>set es. pendingFor pn (snd e) \<longrightarrow> createdAt (snd e) \<le> createdAt r"
      then have "e # es = [] @ (k, r) # es \<and> acc' = Some (k, r) \<and> t' = createdAt r
         \<and> pendingFor pn r \<and> t < createdAt r
         \<and> (\<forall>e\<in>set []. pendingFor pn (snd e) \<longrightarrow> createdAt (snd e) < createdAt r)
         \<and> (\<forall>e\<in>set es. pendingFor pn (snd e) \<longrightarrow> createdAt (snd e) \<le> createdAt r)"
        using True by (simp add: e)
      then show ?thesis by blast
    next
      fix pre k' r' post
      assume h: "es = pre @ (k', r') # post" "acc' = Some (k', r')" "t' = createdAt r'"
        "pendingFor pn r'" "createdAt r < createdAt r'"
        "\<forall>e\<in>set pre. pendingFor pn (snd e) \<longrightarrow> createdAt (snd e) < createdAt r'"
        "\<forall>e\<in>set post. pendingFor pn (snd e) \<longrightarrow> createdAt (snd e) \<le> createdAt r'"
      then have "e # es = (e # pre) @ (k', r') # post \<and> acc' = Some (k', r') \<and> t' = createdAt r'
         \<and> pendingFor pn r' \<and> t < createdAt r'
         \<and> (\<forall>e\<in>set (e # pre). pendingFor pn (snd e) \<longrightarrow> createdAt (snd e) < createdAt r')
         \<and> (\<forall>e\<in>set post. pendingFor pn (snd e) \<longrightarrow> createdAt (snd e) \<le> createdAt r')"
        using True by (simp add: e)
      then show ?thesis by blast
    qed
  next
    case False
    then have run: "scanLatest pn es (t, acc) = (t', acc')"
      using Cons.prems by (auto simp: e pendingFor_def)
    from Cons.IH [OF run] show ?thesis
    proof (elim disjE exE conjE)
      assume "t' = t" "acc' = acc"
        "\<forall>e\<in>set es. pendingFor pn (snd e) \<longrightarrow> createdAt (snd e) \<le> t"
      then show ?thesis using False by (auto simp: e)
    next
      fix pre k' r' post
      assume h: "es = pre @ (k', r') # post" "acc' = Some (k', r')" "t' = createdAt r'"
        "pendingFor pn r'" "t < createdAt r'"
        "\<forall>e\<in>set pre. pendingFor pn (snd e) \<longrightarrow> createdAt (snd e) < createdAt r'"
        "\<forall>e\<in>set post. pendingFor pn (snd e) \<longrightarrow> createdAt (snd e) \<le> createdAt r'"
      then have "e # es = (e # pre) @ (k', r') # post \<and> acc' = Some (k', r') \<and> t' = createdAt r'
         \<and> pendingFor pn r' \<and> t < createdAt r'
         \<and> (\<forall>e\<in>set (e # pre). pendingFor pn (snd e) \<longrightarrow> createdAt (snd e) < createdAt r')
         \<and> (\<forall>e\<in>set post. pendingFor pn (snd e) \<longrightarrow> createdAt (snd e) \<le> createdAt r')"
        using False by (auto simp: e)
      then show ?thesis by blast
    qed
  qed
qed

lemma findByPhone_SomeD:
  assumes "findByPhone pn store = Some (k, r)"
  shows "\<exists>pre post. store = pre @ (k, r) # post \<and> pendingFor pn r \<and> 0 < createdAt r
         \<and> (\<forall>e\<in>set pre. pendingFor pn (snd e) \<longrightarrow> createdAt (snd e) < createdAt r)
         \<and> (\<forall>e\<in>set post. pendingFor pn (snd e) \<longrightarrow> createdAt (snd e) \<le> createdAt r)"
proof -
  obtain t' where run: "scanLatest pn store (0, None) = (t', Some (k, r))"
    using assms unfolding findByPhone_def by (metis prod.collapse)
  from scanLatest_cases [OF run] show ?thesis by auto
qed

lemma findByPhone_None:
  "findByPhone pn store = None \<longleftrightarrow>
     (\<forall>e\<in>set store. pendingFor pn (snd e) \<longrightarrow> createdAt (snd e) \<le> 0)"
proof
  assume "findByPhone pn store = None"
  then obtain t' where run: "scanLatest pn store (0, None) = (t', None)"
    unfolding findByPhone_def by (metis prod.collapse)
  from scanLatest_cases [OF run] show "\<forall>e\<in>set store. pendingFor pn (snd e) \<longrightarrow> createdAt (snd e) \<le> 0"
    by auto
next
  assume a: "\<forall>e\<in>set store. pendingFor pn (snd e) \<longrightarrow> createdAt (snd e) \<le> 0"
  show "findByPhone pn store = None"
  proof (cases "findByPhone pn store")
    case None
    then show ?thesis .
  next
    case (Some e)
    obtain k r where "e = (k, r)" by (cases e)
    with Some findByPhone_SomeD [of pn store k r] a show ?thesis by fastforce
  qed
qed

lemma findByPhone_in_set: "findByPhone pn store = Some (k, r) \<Longrightarrow> (k, r) \<in> set store"
  using findByPhone_SomeD by fastforce

lemma findByPhone_pending: "findByPhone pn store = Some (k, r) \<Longrightarrow> pendingFor pn r"
  using findByPhone_SomeD by fastforce

lemma findByPhone_max:
  "findByPhone pn store = Some (k, r) \<Longrightarrow> e \<in> set store \<Longrightarrow> pendingFor pn (snd e)
     \<Longrightarrow> createdAt (snd e) \<le> createdAt r"
  using findByPhone_SomeD [of pn store k r] by fastforce

lemma resolve_in_set: "resolve store idF pnF = Some (k, r) \<Longrightarrow> (k, r) \<in> set store"
  by (auto simp: resolve_def findByPhone_in_set split: option.splits dest: map_of_SomeD)

lemma resolve_map_of:
  "wf_storage store \<Longrightarrow> resolve store idF pnF = Some (k, r) \<Longrightarrow> map_of store k = Some r"
  using resolve_in_set [of store idF pnF k r] by (simp add: wf_storage_def)

subsection \<open>Invariants of the reachable storages\<close>

lemma wf_send_otp: "wf_storage s \<Longrightarrow> wf_storage (snd (send_otp env sm s pnF msgF))"
  by (auto simp: send_otp_def wf_storage_def Let_def AList.distinct_update split: option.splits)

lemma wf_verify_otp: "wf_storage s \<Longrightarrow> wf_storage (snd (verify_otp env s idF otpF pnF))"
  by (auto simp: verify_otp_def wf_storage_def AList.distinct_update split: option.splits)

lemma wf_timerFire: "wf_storage s \<Longrightarrow> wf_storage (timerFire k s)"
  by (simp add: timerFire_def wf_storage_def AList.distinct_delete)

lemma wf_sweep: "wf_storage s \<Longrightarrow> wf_storage (sweep now s)"
  by (simp add: sweep_def fold_sweep_filter wf_storage_def distinct_map_filter)

lemma issued_mkRecord: "pn \<noteq> [] \<Longrightarrow> issued (mkOtpId env, mkRecord env pn)"
  by (simp add: issued_def mkOtpId_nonempty mkRecord_def generateOTP_nonempty)

lemma issued_send_otp:
  assumes "\<forall>e\<in>set s. issued e"
  shows "\<forall>e\<in>set (snd (send_otp env sm s pnF msgF)). issued e"
proof -
  have "\<And>pn e. pn \<noteq> [] \<Longrightarrow> e \<in> set (AList.update (mkOtpId env) (mkRecord env pn) s) \<Longrightarrow> issued e"
    using assms set_update_subset [of "mkOtpId env" _ s] issued_mkRecord by blast
  then show ?thesis
    using assms by (auto simp: send_otp_def Let_def present_Some split: option.splits)
qed

lemma issued_verify_otp:
  assumes "\<forall>e\<in>set s. issued e"
  shows "\<forall>e\<in>set (snd (verify_otp env s idF otpF pnF)). issued e"
proof -
  have "\<And>k r t e. resolve s idF pnF = Some (k, r) \<Longrightarrow>
      e \<in> set (AList.update k (r\<lparr>verified := True, verifiedAt := Some t\<rparr>) s) \<Longrightarrow> issued e"
  proof -
    fix k r t e
    assume res: "resolve s idF pnF = Some (k, r)"
      and e: "e \<in> set (AList.update k (r\<lparr>verified := True, verifiedAt := Some t\<rparr>) s)"
    from res have "issued (k, r)" using assms resolve_in_set by blast
    then have "issued (k, r\<lparr>verified := True, verifiedAt := Some t\<rparr>)"
      by (simp add: issued_def)
    then show "issued e"
      using e assms set_update_subset [of k _ s] by blast
  qed
  then show ?thesis
    using assms by (auto simp: verify_otp_def split: option.splits)
qed

lemma issued_timerFire: "\<forall>e\<in>set s. issued e \<Longrightarrow> \<forall>e\<in>set (timerFire k s). issued e"
  by (simp add: timerFire_def AList.delete_eq)

lemma issued_sweep: "\<forall>e\<in>set s. issued e \<Longrightarrow> \<forall>e\<in>set (sweep now s). issued e"
  by (simp add: sweep_def fold_sweep_filter)

lemma reachable_inv: "reachable s \<Longrightarrow> wf_storage s \<and> (\<forall>e\<in>set s. issued e)"
proof (induction rule: reachable.induct)
  case r_init
  then show ?case by (simp add: wf_storage_def)
next
  case (r_send s env sendMessage pnF msgF)
  then show ?case using wf_send_otp issued_send_otp by blast
next
  case (r_verify s venv idF otpF pnF)
  then show ?case using wf_verify_otp issued_verify_otp by blast
next
  case (r_timer s k)
  then show ?case using wf_timerFire issued_timerFire by blast
next
  case (r_sweep s now)
  then show ?case using wf_sweep issued_sweep by blast
qed

lemma map_of_filter_Some:
  assumes "distinct (map fst xs)"
  shows "map_of (filter P xs) k = Some v \<longleftrightarrow> map_of xs k = Some v \<and> P (k, v)"
proof -
  have "distinct (map fst (filter P xs))"
    using assms by (rule distinct_map_filter)
  then have "map_of (filter P xs) k = Some v \<longleftrightarrow> (k, v) \<in> set (filter P xs)"
    by simp
  also have "\<dots> \<longleftrightarrow> (k, v) \<in> set xs \<and> P (k, v)"
    by simp
  also have "\<dots> \<longleftrightarrow> map_of xs k = Some v \<and> P (k, v)"
    using assms by simp
  finally show ?thesis .
qed

subsection \<open>The example run\<close>

lemma digits_1000: "digits 1000 = ''1000''"
  by (simp add: digits.simps digit_char_def)

lemma digits_123456: "digits 123456 = ''123456''"
  by (simp add: digits.simps digit_char_def)

lemma exampleStore_eq:
  "exampleStore = [(''otp_1000_k3j9x0a1b'', pendingRecord ''9876543210'' ''123456'' 1002 301002)]"
  by (simp add: exampleStore_def exampleEnv_def send_otp_def mkOtpId_def mkRecord_def
      generateOTP_def toString_def digits_1000 digits_123456 pendingRecord_def Let_def)

lemma reachable_exampleStore: "reachable exampleStore"
  unfolding exampleStore_def by (rule r_send [OF r_init])

section \<open>Verification by id\<close>

text \<open>
  Claim C1, as the code has it. A record that the service issued and still stores, not yet
  verified, is verified by a call with its id and its code whose clock reading is not
  after \<open>expiresAt\<close>: the call succeeds and marks the stored record. On the storage that
  results, a further call with the same id and any non-empty code returns
  \<open>AlreadyConsumed\<close> as long as its clock reading is not after \<open>expiresAt\<close>, and no
  further call with that id succeeds at any time, whatever it submits.
\<close>

theorem verify_succeeds_once:
  assumes "reachable store" and "map_of store k = Some r" and "\<not> verified r"
    and "checkClock env \<le> expiresAt r"
    and "store' = AList.update k (r\<lparr> verified := True, verifiedAt := Some (markClock env) \<rparr>) store"
  shows "verify_otp env store (Some k) (Some (otp r)) pnF =
           (Inr \<lparr> ok_phoneNumber = phoneNumber r, ok_verifiedAt = respClock env \<rparr>, store')
     \<and> map_of store' k = Some (r\<lparr> verified := True, verifiedAt := Some (markClock env) \<rparr>)
     \<and> (\<forall>env' otpF' pnF'. present otpF' \<noteq> None \<and> checkClock env' \<le> expiresAt r \<longrightarrow>
           verify_otp env' store' (Some k) otpF' pnF' = (Inl AlreadyConsumed, store'))
     \<and> (\<forall>env' otpF' pnF'.
           fst (verify_otp env' store' (Some k) otpF' pnF')
             \<in> {Inl MissingCode, Inl Expired, Inl AlreadyConsumed}
           \<and> snd (verify_otp env' store' (Some k) otpF' pnF') = store')"
proof -
  have inv: "wf_storage store" "\<forall>e\<in>set store. issued e"
    using reachable_inv [OF assms(1)] by simp_all
  have mem: "(k, r) \<in> set store" using assms(2) by (rule map_of_SomeD)
  then have ne: "k \<noteq> []" "otp r \<noteq> []"
    using inv(2) by (auto simp: issued_def)
  have res: "resolve store (Some k) pnF = Some (k, r)"
    using ne(1) assms(2) by (simp add: resolve_def)
  have first: "verify_otp env store (Some k) (Some (otp r)) pnF =
           (Inr \<lparr> ok_phoneNumber = phoneNumber r, ok_verifiedAt = respClock env \<rparr>, store')"
    using ne(2) res assms(3,4,5) by (simp add: verify_otp_def)
  have look: "map_of store' k = Some (r\<lparr> verified := True, verifiedAt := Some (markClock env) \<rparr>)"
    by (simp add: assms(5) AList.update_conv')
  have res': "\<And>pnF'. resolve store' (Some k) pnF' =
      Some (k, r\<lparr> verified := True, verifiedAt := Some (markClock env) \<rparr>)"
    using ne(1) look by (simp add: resolve_def)
  have again: "\<And>env' otpF' pnF'. present otpF' \<noteq> None \<Longrightarrow> checkClock env' \<le> expiresAt r \<Longrightarrow>
           verify_otp env' store' (Some k) otpF' pnF' = (Inl AlreadyConsumed, store')"
    by (auto simp: verify_otp_def res')
  have never: "\<And>env' otpF' pnF'.
           fst (verify_otp env' store' (Some k) otpF' pnF')
             \<in> {Inl MissingCode, Inl Expired, Inl AlreadyConsumed}
           \<and> snd (verify_otp env' store' (Some k) otpF' pnF') = store'"
    by (auto simp: verify_otp_def res' split: option.splits)
  show ?thesis using first look again never by blast
qed

text \<open>The example run, verified at the last valid millisecond and then once more.\<close>

theorem verify_succeeds_once_witness:
  "reachable exampleStore
   \<and> map_of exampleStore ''otp_1000_k3j9x0a1b''
       = Some (pendingRecord ''9876543210'' ''123456'' 1002 301002)
   \<and> verify_otp \<lparr> checkClock = 301002, markClock = 301003, respClock = 301004 \<rparr> exampleStore
       (Some ''otp_1000_k3j9x0a1b'') (Some ''123456'') None
     = (Inr \<lparr> ok_phoneNumber = ''9876543210'', ok_verifiedAt = 301004 \<rparr>,
        [(''otp_1000_k3j9x0a1b'',
          (pendingRecord ''9876543210'' ''123456'' 1002 301002)
            \<lparr> verified := True, verifiedAt := Some 301003 \<rparr>)])
   \<and> verify_otp \<lparr> checkClock = 301002, markClock = 301003, respClock = 301004 \<rparr>
        [(''otp_1000_k3j9x0a1b'',
          (pendingRecord ''9876543210'' ''123456'' 1002 301002)
            \<lparr> verified := True, verifiedAt := Some 301003 \<rparr>)]
        (Some ''otp_1000_k3j9x0a1b'') (Some ''123456'') None
     = (Inl AlreadyConsumed,
        [(''otp_1000_k3j9x0a1b'',
          (pendingRecord ''9876543210'' ''123456'' 1002 301002)
            \<lparr> verified := True, verifiedAt := Some 301003 \<rparr>)])"
proof -
  let ?k = "''otp_1000_k3j9x0a1b''"
  let ?r = "pendingRecord ''9876543210'' ''123456'' 1002 301002"
  let ?env = "\<lparr> checkClock = 301002, markClock = 301003, respClock = 301004 \<rparr>"
  have h1: "reachable exampleStore" by (rule reachable_exampleStore)
  have h2: "map_of exampleStore ?k = Some ?r" by (simp add: exampleStore_eq)
  have h3: "\<not> verified ?r" by (simp add: pendingRecord_def)
  have h4: "checkClock ?env \<le> expiresAt ?r" by (simp add: pendingRecord_def)
  have h5: "[(?k, ?r\<lparr> verified := True, verifiedAt := Some 301003 \<rparr>)]
      = AList.update ?k (?r\<lparr> verified := True, verifiedAt := Some (markClock ?env) \<rparr>) exampleStore"
    by (simp add: exampleStore_eq)
  have p: "present (Some ''123456'') \<noteq> None" by simp
  note T = verify_succeeds_once [OF h1 h2 h3 h4 h5, of None]
  have a: "verify_otp ?env exampleStore (Some ?k) (Some ''123456'') None
     = (Inr \<lparr> ok_phoneNumber = ''9876543210'', ok_verifiedAt = 301004 \<rparr>,
        [(?k, ?r\<lparr> verified := True, verifiedAt := Some 301003 \<rparr>)])"
    using T by (simp add: pendingRecord_def)
  have b: "verify_otp ?env [(?k, ?r\<lparr> verified := True, verifiedAt := Some 301003 \<rparr>)]
        (Some ?k) (Some ''123456'') None
     = (Inl AlreadyConsumed, [(?k, ?r\<lparr> verified := True, verifiedAt := Some 301003 \<rparr>)])"
    using T p h4 by blast
  show ?thesis using h1 h2 a b by blast
qed

text \<open>
  Without the bound on the time of the second call the statement fails: the expiry check
  comes before the already-verified check, so one millisecond after \<open>expiresAt\<close> the
  second call on the record that is still stored answers \<open>Expired\<close>.
\<close>

theorem verify_second_call_after_expiry_counterexample:
  "verify_otp \<lparr> checkClock = 2000, markClock = 2000, respClock = 2000 \<rparr> exampleStore
       (Some ''otp_1000_k3j9x0a1b'') (Some ''123456'') None
     = (Inr \<lparr> ok_phoneNumber = ''9876543210'', ok_verifiedAt = 2000 \<rparr>,
        [(''otp_1000_k3j9x0a1b'',
          (pendingRecord ''9876543210'' ''123456'' 1002 301002)
            \<lparr> verified := True, verifiedAt := Some 2000 \<rparr>)])
   \<and> verify_otp \<lparr> checkClock = 301003, markClock = 301003, respClock = 301003 \<rparr>
        [(''otp_1000_k3j9x0a1b'',
          (pendingRecord ''9876543210'' ''123456'' 1002 301002)
            \<lparr> verified := True, verifiedAt := Some 2000 \<rparr>)]
        (Some ''otp_1000_k3j9x0a1b'') (Some ''123456'') None
     = (Inl Expired,
        [(''otp_1000_k3j9x0a1b'',
          (pendingRecord ''9876543210'' ''123456'' 1002 301002)
            \<lparr> verified := True, verifiedAt := Some 2000 \<rparr>)])"
  by (simp add: exampleStore_eq verify_otp_def resolve_def pendingRecord_def)

text \<open>
  Claim C2. With a code submitted, the handler answers \<open>NotFound\<close> when no record is
  resolved; for a resolved record it answers \<open>Expired\<close> when the clock is past
  \<open>expiresAt\<close>, whatever the record's state and the code; otherwise \<open>AlreadyConsumed\<close>
  when the record is verified, whatever the code; otherwise \<open>CodeMismatch\<close> when the code
  differs; and only otherwise it succeeds and marks the record. Every error leaves the
  storage as it was.
\<close>

theorem verify_check_order:
  assumes "present otpF = Some code"
  shows "(resolve store idF pnF = None \<longrightarrow>
            verify_otp env store idF otpF pnF = (Inl NotFound, store))
     \<and> (\<forall>k r. resolve store idF pnF = Some (k, r) \<longrightarrow>
          (checkClock env > expiresAt r \<longrightarrow>
             verify_otp env store idF otpF pnF = (Inl Expired, store))
        \<and> (\<not> checkClock env > expiresAt r \<and> verified r \<longrightarrow>
             verify_otp env store idF otpF pnF = (Inl AlreadyConsumed, store))
        \<and> (\<not> checkClock env > expiresAt r \<and> \<not> verified r \<and> code \<noteq> otp r \<longrightarrow>
             verify_otp env store idF otpF pnF = (Inl CodeMismatch, store))
        \<and> (\<not> checkClock env > expiresAt r \<and> \<not> verified r \<and> code = otp r \<longrightarrow>
             verify_otp env store idF otpF pnF =
               (Inr \<lparr> ok_phoneNumber = phoneNumber r, ok_verifiedAt = respClock env \<rparr>,
                AList.update k (r\<lparr> verified := True, verifiedAt := Some (markClock env) \<rparr>) store)))"
  using assms by (auto simp: verify_otp_def)

text \<open>A verified record with a wrong code: expiry wins past \<open>expiresAt\<close>, then the verified flag.\<close>

theorem verify_check_order_witness:
  "present (Some ''000000'') = Some ''000000''
   \<and> resolve [(''a'', (pendingRecord ''1'' ''123456'' 200 500)\<lparr> verified := True \<rparr>)] (Some ''a'') None
       = Some (''a'', (pendingRecord ''1'' ''123456'' 200 500)\<lparr> verified := True \<rparr>)
   \<and> verify_otp \<lparr> checkClock = 501, markClock = 501, respClock = 501 \<rparr>
        [(''a'', (pendingRecord ''1'' ''123456'' 200 500)\<lparr> verified := True \<rparr>)]
        (Some ''a'') (Some ''000000'') None
      = (Inl Expired, [(''a'', (pendingRecord ''1'' ''123456'' 200 500)\<lparr> verified := True \<rparr>)])
   \<and> verify_otp \<lparr> checkClock = 500, markClock = 500, respClock = 500 \<rparr>
        [(''a'', (pendingRecord ''1'' ''123456'' 200 500)\<lparr> verified := True \<rparr>)]
        (Some ''a'') (Some ''000000'') None
      = (Inl AlreadyConsumed, [(''a'', (pendingRecord ''1'' ''123456'' 200 500)\<lparr> verified := True \<rparr>)])"
proof -
  have p: "present (Some ''000000'') = Some ''000000''" by simp
  have r: "resolve [(''a'', (pendingRecord ''1'' ''123456'' 200 500)\<lparr> verified := True \<rparr>)] (Some ''a'') None
       = Some (''a'', (pendingRecord ''1'' ''123456'' 200 500)\<lparr> verified := True \<rparr>)"
    by (simp add: resolve_def)
  show ?thesis
    using p r
      verify_check_order [OF p, of "[(''a'', (pendingRecord ''1'' ''123456'' 200 500)\<lparr> verified := True \<rparr>)]"
        "Some ''a''" None "\<lparr> checkClock = 501, markClock = 501, respClock = 501 \<rparr>"]
      verify_check_order [OF p, of "[(''a'', (pendingRecord ''1'' ''123456'' 200 500)\<lparr> verified := True \<rparr>)]"
        "Some ''a''" None "\<lparr> checkClock = 500, markClock = 500, respClock = 500 \<rparr>"]
    by (simp add: pendingRecord_def)
qed

text \<open>
  Claim C10. With a non-empty id in the request, the submitted phone number is never
  looked at: two requests that differ only in it get the same response and leave the
  same storage, so the number is not compared with the record's.
\<close>

theorem verify_by_id_ignores_phoneNumber:
  assumes "present idF \<noteq> None"
  shows "verify_otp env store idF otpF pnF1 = verify_otp env store idF otpF pnF2"
  using assms by (auto simp: verify_otp_def resolve_def split: option.splits)

text \<open>A verification by id succeeds with another phone number than the record's.\<close>

theorem verify_by_id_ignores_phoneNumber_witness:
  "present (Some ''a'') \<noteq> None
   \<and> verify_otp \<lparr> checkClock = 300, markClock = 301, respClock = 302 \<rparr>
        [(''a'', pendingRecord ''9876543210'' ''123456'' 200 500)]
        (Some ''a'') (Some ''123456'') (Some ''5550000000'')
     = (Inr \<lparr> ok_phoneNumber = ''9876543210'', ok_verifiedAt = 302 \<rparr>,
        [(''a'', (pendingRecord ''9876543210'' ''123456'' 200 500)
                   \<lparr> verified := True, verifiedAt := Some 301 \<rparr>)])
   \<and> verify_otp \<lparr> checkClock = 300, markClock = 301, respClock = 302 \<rparr>
        [(''a'', pendingRecord ''9876543210'' ''123456'' 200 500)]
        (Some ''a'') (Some ''123456'') (Some ''9876543210'')
     = (Inr \<lparr> ok_phoneNumber = ''9876543210'', ok_verifiedAt = 302 \<rparr>,
        [(''a'', (pendingRecord ''9876543210'' ''123456'' 200 500)
                   \<lparr> verified := True, verifiedAt := Some 301 \<rparr>)])"
proof -
  have p: "present (Some ''a'') \<noteq> None" by simp
  show ?thesis
    using p verify_by_id_ignores_phoneNumber [OF p,
        of "\<lparr> checkClock = 300, markClock = 301, respClock = 302 \<rparr>"
        "[(''a'', pendingRecord ''9876543210'' ''123456'' 200 500)]"
        "Some ''123456''" "Some ''5550000000''" "Some ''9876543210''"]
    by (simp add: pendingRecord_def verify_otp_def resolve_def)
qed

section \<open>Verification by phone number\<close>

text \<open>
  Claim C9. Without an id in the request the answer is never \<open>AlreadyConsumed\<close>: the
  scan skips verified records. When a code is submitted and every stored record of the
  number is verified, the answer is \<open>NotFound\<close>.
\<close>

theorem verify_by_phone_never_AlreadyConsumed:
  assumes "present idF = None"
  shows "fst (verify_otp env store idF otpF pnF) \<noteq> Inl AlreadyConsumed
     \<and> (present otpF \<noteq> None \<and> (\<forall>e\<in>set store. phoneNumber (snd e) = pn \<longrightarrow> verified (snd e))
          \<longrightarrow> fst (verify_otp env store idF otpF (Some pn)) = Inl NotFound)"
proof -
  have nv: "\<And>p k r. findByPhone p store = Some (k, r) \<Longrightarrow> \<not> verified r"
    using findByPhone_pending by (simp add: pendingFor_def)
  have a: "fst (verify_otp env store idF otpF pnF) \<noteq> Inl AlreadyConsumed"
    using assms nv by (auto simp: verify_otp_def resolve_def split: option.splits)
  have b: "findByPhone pn store = None"
    if "\<forall>e\<in>set store. phoneNumber (snd e) = pn \<longrightarrow> verified (snd e)"
    using that by (auto simp: findByPhone_None pendingFor_def)
  have c: "fst (verify_otp env store idF otpF (Some pn)) = Inl NotFound"
    if "present otpF \<noteq> None" "\<forall>e\<in>set store. phoneNumber (snd e) = pn \<longrightarrow> verified (snd e)"
    using that assms b [OF that(2)] by (auto simp: verify_otp_def resolve_def split: option.splits)
  show ?thesis using a c by blast
qed

text \<open>The same verified record: \<open>NotFound\<close> by phone number, \<open>AlreadyConsumed\<close> by id.\<close>

theorem verify_by_phone_never_AlreadyConsumed_witness:
  "present None = None
   \<and> verify_otp \<lparr> checkClock = 300, markClock = 300, respClock = 300 \<rparr>
        [(''a'', (pendingRecord ''1'' ''123456'' 200 500)\<lparr> verified := True, verifiedAt := Some 250 \<rparr>)]
        None (Some ''123456'') (Some ''1'')
      = (Inl NotFound,
         [(''a'', (pendingRecord ''1'' ''123456'' 200 500)\<lparr> verified := True, verifiedAt := Some 250 \<rparr>)])
   \<and> verify_otp \<lparr> checkClock = 300, markClock = 300, respClock = 300 \<rparr>
        [(''a'', (pendingRecord ''1'' ''123456'' 200 500)\<lparr> verified := True, verifiedAt := Some 250 \<rparr>)]
        (Some ''a'') (Some ''123456'') (Some ''1'')
      = (Inl AlreadyConsumed,
         [(''a'', (pendingRecord ''1'' ''123456'' 200 500)\<lparr> verified := True, verifiedAt := Some 250 \<rparr>)])"
proof -
  have p: "present None = None" by simp
  show ?thesis
    using p verify_by_phone_never_AlreadyConsumed [OF p,
        of "\<lparr> checkClock = 300, markClock = 300, respClock = 300 \<rparr>"
        "[(''a'', (pendingRecord ''1'' ''123456'' 200 500)\<lparr> verified := True, verifiedAt := Some 250 \<rparr>)]"
        "Some ''123456''" "Some ''1''" "''1''"]
    by (simp add: pendingRecord_def verify_otp_def resolve_def findByPhone_def)
qed

section \<open>Address normalization\<close>

text \<open>
  Claim C3, as the code has it. \<open>formatPhoneNumber\<close> keeps the digits of its input,
  puts 91 in front when exactly ten digits remain and they do not already start with
  91, and appends the suffix \<open>@c.us\<close>. It is a total function of the input string. It
  agrees with the specification's wording except on ten digits that start with 91.
\<close>

theorem formatPhoneNumber_normalizes:
  "formatPhoneNumber pn =
     (if length (filter isDigit pn) = 10 \<and> \<not> prefix ''91'' (filter isDigit pn)
      then ''91'' @ filter isDigit pn else filter isDigit pn) @ ''@c.us''
   \<and> (formatPhoneNumber pn = normalize_spec pn
        \<longleftrightarrow> \<not> (length (filter isDigit pn) = 10 \<and> prefix ''91'' (filter isDigit pn)))"
  by (auto simp: formatPhoneNumber_def normalize_spec_def stripNonDigits_filter Let_def)

text \<open>Ten digits with punctuation get the prefix; fewer digits do not.\<close>

theorem formatPhoneNumber_normalizes_witness:
  "formatPhoneNumber ''+98765-43210'' = ''919876543210@c.us''
   \<and> formatPhoneNumber ''+98765-43210'' = normalize_spec ''+98765-43210''
   \<and> formatPhoneNumber ''(0) 12 34'' = ''01234@c.us''"
  using formatPhoneNumber_normalizes [of "''+98765-43210''"]
    formatPhoneNumber_normalizes [of "''(0) 12 34''"]
  by (simp add: isDigit_def normalize_spec_def)

text \<open>
  Ten digits that start with 91 are left without the prefix, where the specification's
  wording adds it.
\<close>

theorem formatPhoneNumber_ten_digits_counterexample:
  "length (stripNonDigits ''9123456789'') = 10
   \<and> formatPhoneNumber ''9123456789'' = ''9123456789@c.us''
   \<and> formatPhoneNumber ''9123456789'' \<noteq> normalize_spec ''9123456789''"
  by (simp add: formatPhoneNumber_def normalize_spec_def isDigit_def)

section \<open>The sweep\<close>

text \<open>
  Claim C8. On a storage with unique keys, the sweep at time \<open>now\<close> keeps exactly the
  entries whose \<open>expiresAt\<close> is not below \<open>now\<close>, in their order; a lookup afterwards
  finds a record if and only if it was stored and not expired; and after a sweep at
  \<open>expiresAt + 1\<close> of a stored record, the lookup of its id finds nothing.
\<close>

theorem sweep_removes_exactly_expired:
  assumes "wf_storage store"
  shows "sweep now store = filter (\<lambda>e. \<not> expiresAt (snd e) < now) store
     \<and> (\<forall>k r. map_of (sweep now store) k = Some r
           \<longleftrightarrow> map_of store k = Some r \<and> \<not> expiresAt r < now)
     \<and> (\<forall>k r. map_of store k = Some r \<longrightarrow> map_of (sweep (expiresAt r + 1) store) k = None)"
proof -
  have d: "distinct (map fst store)" using assms by (simp add: wf_storage_def)
  have m: "\<And>t k r. map_of (sweep t store) k = Some r
           \<longleftrightarrow> map_of store k = Some r \<and> \<not> expiresAt r < t"
    by (simp add: sweep_filter [OF assms] map_of_filter_Some [OF d])
  have e: "map_of (sweep (expiresAt r + 1) store) k = None" if "map_of store k = Some r" for k r
  proof (cases "map_of (sweep (expiresAt r + 1) store) k")
    case None
    then show ?thesis .
  next
    case (Some r')
    then have "map_of store k = Some r' \<and> \<not> expiresAt r' < expiresAt r + 1"
      by (simp add: m)
    with that show ?thesis by simp
  qed
  show ?thesis
    using sweep_filter [OF assms] m e by blast
qed

text \<open>Two records that expire at 500 and 501, swept at 501.\<close>

theorem sweep_removes_exactly_expired_witness:
  "wf_storage
     [(''a'', pendingRecord ''1'' ''123456'' 200 500),
      (''b'', pendingRecord ''1'' ''654321'' 201 501)]
   \<and> sweep 501
       [(''a'', pendingRecord ''1'' ''123456'' 200 500),
        (''b'', pendingRecord ''1'' ''654321'' 201 501)]
     = [(''b'', pendingRecord ''1'' ''654321'' 201 501)]
   \<and> map_of (sweep 501
       [(''a'', pendingRecord ''1'' ''123456'' 200 500),
        (''b'', pendingRecord ''1'' ''654321'' 201 501)]) ''a'' = None"
proof -
  have wf: "wf_storage
     [(''a'', pendingRecord ''1'' ''123456'' 200 500),
      (''b'', pendingRecord ''1'' ''654321'' 201 501)]"
    by (simp add: wf_storage_def)
  show ?thesis
    using wf sweep_removes_exactly_expired [OF wf, of 501] by (simp add: pendingRecord_def)
qed

section \<open>The latest pending record of a phone number\<close>

lemma scanLatest_setExpiry:
  "scanLatest pn (map (setExpiry f) es) (t, map_option (setExpiry f) acc)
     = (fst (scanLatest pn es (t, acc)), map_option (setExpiry f) (snd (scanLatest pn es (t, acc))))"
proof (induction es arbitrary: t acc)
  case Nil
  then show ?case by simp
next
  case (Cons e es)
  obtain k r where e: "e = (k, r)" by (cases e)
  show ?case
  proof (cases "phoneNumber r = pn \<and> createdAt r > t \<and> \<not> verified r")
    case True
    then show ?thesis
      using Cons.IH [of "createdAt r" "Some (k, r)"] by (simp add: e setExpiry_def)
  next
    case False
    then show ?thesis
      using Cons.IH [of t acc] by (auto simp: e setExpiry_def)
  qed
qed

lemma findByPhone_setExpiry:
  "findByPhone pn (map (setExpiry f) store) = map_option (setExpiry f) (findByPhone pn store)"
  using scanLatest_setExpiry [of pn f store 0 None] by (simp add: findByPhone_def)

text \<open>
  Claim C4, as the code has it. On a storage whose timestamps are positive, the scan
  finds nothing exactly when no stored record has the number and is unverified.
  Otherwise it returns a stored entry with the number, unverified, whose \<open>createdAt\<close> is
  the largest among such entries; every such entry before it in the scan is strictly
  older, so among entries that share the largest \<open>createdAt\<close> the one met first is
  returned.
\<close>

theorem findByPhone_first_of_latest:
  assumes "\<forall>e\<in>set store. 0 < createdAt (snd e)"
  shows "(findByPhone pn store = None \<longleftrightarrow> (\<forall>e\<in>set store. \<not> pendingFor pn (snd e)))
     \<and> (\<forall>k r. findByPhone pn store = Some (k, r) \<longrightarrow>
          (\<exists>pre post. store = pre @ (k, r) # post \<and> phoneNumber r = pn \<and> \<not> verified r
             \<and> (\<forall>e\<in>set pre. pendingFor pn (snd e) \<longrightarrow> createdAt (snd e) < createdAt r)
             \<and> (\<forall>e\<in>set post. pendingFor pn (snd e) \<longrightarrow> createdAt (snd e) \<le> createdAt r)))"
proof -
  have a: "findByPhone pn store = None \<longleftrightarrow> (\<forall>e\<in>set store. \<not> pendingFor pn (snd e))"
    using assms by (fastforce simp: findByPhone_None)
  have b: "\<exists>pre post. store = pre @ (k, r) # post \<and> phoneNumber r = pn \<and> \<not> verified r
             \<and> (\<forall>e\<in>set pre. pendingFor pn (snd e) \<longrightarrow> createdAt (snd e) < createdAt r)
             \<and> (\<forall>e\<in>set post. pendingFor pn (snd e) \<longrightarrow> createdAt (snd e) \<le> createdAt r)"
    if "findByPhone pn store = Some (k, r)" for k r
    using findByPhone_SomeD [OF that] unfolding pendingFor_def by blast
  show ?thesis using a b by blast
qed

text \<open>Three records of one number; the two newest share their \<open>createdAt\<close>.\<close>

theorem findByPhone_first_of_latest_witness:
  "0 < createdAt (pendingRecord ''1'' ''111111'' 100 400)
   \<and> 0 < createdAt (pendingRecord ''1'' ''222222'' 200 500)
   \<and> 0 < createdAt (pendingRecord ''1'' ''333333'' 200 500)
   \<and> findByPhone ''1'' [(''a'', pendingRecord ''1'' ''111111'' 100 400),
                        (''b'', pendingRecord ''1'' ''222222'' 200 500),
                        (''c'', pendingRecord ''1'' ''333333'' 200 500)]
       = Some (''b'', pendingRecord ''1'' ''222222'' 200 500)
   \<and> (\<exists>pre post. [(''a'', pendingRecord ''1'' ''111111'' 100 400),
                   (''b'', pendingRecord ''1'' ''222222'' 200 500),
                   (''c'', pendingRecord ''1'' ''333333'' 200 500)]
                  = pre @ (''b'', pendingRecord ''1'' ''222222'' 200 500) # post)
   \<and> findByPhone ''2'' [(''a'', pendingRecord ''1'' ''111111'' 100 400),
                        (''b'', pendingRecord ''1'' ''222222'' 200 500),
                        (''c'', pendingRecord ''1'' ''333333'' 200 500)]
       = None"
proof -
  let ?s = "[(''a'', pendingRecord ''1'' ''111111'' 100 400),
             (''b'', pendingRecord ''1'' ''222222'' 200 500),
             (''c'', pendingRecord ''1'' ''333333'' 200 500)]"
  have h: "\<forall>e\<in>set ?s. 0 < createdAt (snd e)" by (simp add: pendingRecord_def)
  have f: "findByPhone ''1'' ?s = Some (''b'', pendingRecord ''1'' ''222222'' 200 500)"
    by (simp add: findByPhone_def pendingRecord_def)
  have n: "\<forall>e\<in>set ?s. \<not> pendingFor ''2'' (snd e)"
    by (simp add: pendingFor_def pendingRecord_def)
  note t1 = findByPhone_first_of_latest [OF h, of "''1''"]
  note t2 = findByPhone_first_of_latest [OF h, of "''2''"]
  have a: "\<exists>pre post. ?s = pre @ (''b'', pendingRecord ''1'' ''222222'' 200 500) # post"
    using t1 f by blast
  have b: "findByPhone ''2'' ?s = None"
    using t2 n by blast
  have c: "0 < createdAt (pendingRecord ''1'' ''111111'' 100 400)
     \<and> 0 < createdAt (pendingRecord ''1'' ''222222'' 200 500)
     \<and> 0 < createdAt (pendingRecord ''1'' ''333333'' 200 500)"
    using h by simp
  show ?thesis using a b c f by blast
qed

text \<open>
  Of two unverified records of one number with the same \<open>createdAt\<close>, the scan keeps the
  first: the comparison with \<open>latestTime\<close> is strict.
\<close>

theorem findByPhone_tie_counterexample:
  "createdAt (pendingRecord ''1'' ''111111'' 200 500) = createdAt (pendingRecord ''1'' ''222222'' 200 500)
   \<and> findByPhone ''1'' [(''a'', pendingRecord ''1'' ''111111'' 200 500),
                        (''b'', pendingRecord ''1'' ''222222'' 200 500)]
       = Some (''a'', pendingRecord ''1'' ''111111'' 200 500)
   \<and> findByPhone ''1'' [(''a'', pendingRecord ''1'' ''111111'' 200 500),
                        (''b'', pendingRecord ''1'' ''222222'' 200 500)]
       \<noteq> Some (''b'', pendingRecord ''1'' ''222222'' 200 500)"
  by (simp add: findByPhone_def pendingRecord_def)

text \<open>
  Claim C5, as the code has it. The scan selects among the stored records of the number
  that are not verified, and returns one with the largest \<open>createdAt\<close>; the expiry of a
  record plays no part in the selection: overwriting every \<open>expiresAt\<close> changes nothing
  but that field of the result. In particular, when the number has unverified records
  created at 100 and one created at 200, the one created at 200 is returned.
\<close>

theorem findByPhone_among_unverified:
  "(\<forall>k r. findByPhone pn store = Some (k, r) \<longrightarrow>
        (k, r) \<in> set store \<and> phoneNumber r = pn \<and> \<not> verified r
      \<and> (\<forall>e\<in>set store. pendingFor pn (snd e) \<longrightarrow> createdAt (snd e) \<le> createdAt r))
   \<and> findByPhone pn (map (setExpiry f) store) = map_option (setExpiry f) (findByPhone pn store)
   \<and> (\<forall>k2 r2. (k2, r2) \<in> set store \<and> pendingFor pn r2 \<and> createdAt r2 = 200
         \<and> (\<forall>e\<in>set store. pendingFor pn (snd e) \<longrightarrow> e = (k2, r2) \<or> createdAt (snd e) = 100)
        \<longrightarrow> findByPhone pn store = Some (k2, r2))"
proof -
  have a: "(k, r) \<in> set store \<and> phoneNumber r = pn \<and> \<not> verified r
      \<and> (\<forall>e\<in>set store. pendingFor pn (snd e) \<longrightarrow> createdAt (snd e) \<le> createdAt r)"
    if "findByPhone pn store = Some (k, r)" for k r
    using findByPhone_in_set [OF that] findByPhone_pending [OF that] findByPhone_max [OF that]
    by (auto simp: pendingFor_def)
  have c: "findByPhone pn store = Some (k2, r2)"
    if h: "(k2, r2) \<in> set store" "pendingFor pn r2" "createdAt r2 = 200"
      "\<forall>e\<in>set store. pendingFor pn (snd e) \<longrightarrow> e = (k2, r2) \<or> createdAt (snd e) = 100"
    for k2 r2
  proof (cases "findByPhone pn store")
    case None
    then have "createdAt r2 \<le> 0" using h(1,2) by (fastforce simp: findByPhone_None)
    then show ?thesis using h(3) by simp
  next
    case (Some e)
    obtain k r where e: "e = (k, r)" by (cases e)
    have f: "findByPhone pn store = Some (k, r)" using Some e by simp
    have "createdAt r2 \<le> createdAt r"
      using findByPhone_max [OF f h(1)] h(2) by simp
    moreover have "(k, r) = (k2, r2) \<or> createdAt r = 100"
      using h(4) findByPhone_in_set [OF f] findByPhone_pending [OF f] by fastforce
    ultimately show ?thesis using f h(3) by auto
  qed
  show ?thesis using a c findByPhone_setExpiry by blast
qed

text \<open>Records created at 100 and at 200, in both orders.\<close>

theorem findByPhone_among_unverified_witness:
  "findByPhone ''1'' [(''a'', pendingRecord ''1'' ''111111'' 100 400),
                      (''x'', pendingRecord ''2'' ''999999'' 300 600),
                      (''b'', pendingRecord ''1'' ''222222'' 200 500)]
     = Some (''b'', pendingRecord ''1'' ''222222'' 200 500)
   \<and> findByPhone ''1'' [(''b'', pendingRecord ''1'' ''222222'' 200 500),
                        (''a'', pendingRecord ''1'' ''111111'' 100 400)]
     = Some (''b'', pendingRecord ''1'' ''222222'' 200 500)"
proof -
  let ?ra = "pendingRecord ''1'' ''111111'' 100 400"
  let ?rx = "pendingRecord ''2'' ''999999'' 300 600"
  let ?rb = "pendingRecord ''1'' ''222222'' 200 500"
  have h1: "(''b'', ?rb) \<in> set [(''a'', ?ra), (''x'', ?rx), (''b'', ?rb)]
         \<and> pendingFor ''1'' ?rb \<and> createdAt ?rb = 200
         \<and> (\<forall>e\<in>set [(''a'', ?ra), (''x'', ?rx), (''b'', ?rb)].
               pendingFor ''1'' (snd e) \<longrightarrow> e = (''b'', ?rb) \<or> createdAt (snd e) = 100)"
    by (simp add: pendingRecord_def pendingFor_def)
  have h2: "(''b'', ?rb) \<in> set [(''b'', ?rb), (''a'', ?ra)]
         \<and> pendingFor ''1'' ?rb \<and> createdAt ?rb = 200
         \<and> (\<forall>e\<in>set [(''b'', ?rb), (''a'', ?ra)].
               pendingFor ''1'' (snd e) \<longrightarrow> e = (''b'', ?rb) \<or> createdAt (snd e) = 100)"
    by (simp add: pendingRecord_def pendingFor_def)
  note t1 = findByPhone_among_unverified [of "''1''" "[(''a'', ?ra), (''x'', ?rx), (''b'', ?rb)]",
      THEN conjunct2, THEN conjunct2, rule_format, OF h1]
  note t2 = findByPhone_among_unverified [of "''1''" "[(''b'', ?rb), (''a'', ?ra)]",
      THEN conjunct2, THEN conjunct2, rule_format, OF h2]
  show ?thesis using t1 t2 by simp
qed

text \<open>
  A record that has expired but is still stored is selected all the same, and the
  handler then answers \<open>Expired\<close>.
\<close>

theorem findByPhone_expired_counterexample:
  "findByPhone ''1'' [(''a'', pendingRecord ''1'' ''123456'' 200 500)]
     = Some (''a'', pendingRecord ''1'' ''123456'' 200 500)
   \<and> \<not> pending_spec ''1'' 501 (pendingRecord ''1'' ''123456'' 200 500)
   \<and> verify_otp \<lparr> checkClock = 501, markClock = 501, respClock = 501 \<rparr>
        [(''a'', pendingRecord ''1'' ''123456'' 200 500)] None (Some ''123456'') (Some ''1'')
     = (Inl Expired, [(''a'', pendingRecord ''1'' ''123456'' 200 500)])"
  by (simp add: findByPhone_def pendingRecord_def pending_spec_def verify_otp_def resolve_def)

section \<open>Issuing\<close>


lemma send_otp_delivered:
  assumes "deliverySucceeded env sm pnF msgF"
  shows "\<exists>pn. present pnF = Some pn \<and>
           send_otp env sm store pnF msgF =
             (Inr \<lparr> sent_otpId = mkOtpId env, sent_phoneNumber = pn \<rparr>,
              AList.update (mkOtpId env) (mkRecord env pn) store)"
  using assms
  by (auto simp: deliverySucceeded_def sendAttempt_def send_otp_def Let_def
      split: option.splits if_splits)












section \<open>Timestamps of a record\<close>

text \<open>
  Claim C7. The handler reads the clock once for \<open>expiryTime\<close> and once more for
  \<open>createdAt\<close>. The record stored by a request whose delivery succeeded has
  \<open>expiresAt\<close> equal to the first reading plus 5 minutes and \<open>createdAt\<close> equal to the
  second reading, so \<open>expiresAt = createdAt + 5 minutes\<close> holds exactly when the two
  readings are the same millisecond.
\<close>

theorem send_otp_record_timestamps:
  assumes "deliverySucceeded env sm pnF msgF"
  shows "\<exists>pn. present pnF = Some pn
     \<and> map_of (snd (send_otp env sm store pnF msgF)) (mkOtpId env) = Some (mkRecord env pn)
     \<and> expiresAt (mkRecord env pn) = expiryClock env + 5 * 60 * 1000
     \<and> createdAt (mkRecord env pn) = createdClock env
     \<and> (expiresAt (mkRecord env pn) = createdAt (mkRecord env pn) + 5 * 60 * 1000
          \<longleftrightarrow> createdClock env = expiryClock env)"
proof -
  obtain pn where p: "present pnF = Some pn"
    and s: "send_otp env sm store pnF msgF =
             (Inr \<lparr> sent_otpId = mkOtpId env, sent_phoneNumber = pn \<rparr>,
              AList.update (mkOtpId env) (mkRecord env pn) store)"
    using send_otp_delivered [OF assms, of store] by blast
  have m: "map_of (snd (send_otp env sm store pnF msgF)) (mkOtpId env) = Some (mkRecord env pn)"
    by (simp add: s AList.update_conv')
  have t: "expiresAt (mkRecord env pn) = expiryClock env + 5 * 60 * 1000
     \<and> createdAt (mkRecord env pn) = createdClock env
     \<and> (expiresAt (mkRecord env pn) = createdAt (mkRecord env pn) + 5 * 60 * 1000
          \<longleftrightarrow> createdClock env = expiryClock env)"
    by (auto simp: mkRecord_def)
  show ?thesis using p m t by blast
qed

text \<open>
  When the clock moves from 1000 to 1001 between the two readings, the stored record
  has \<open>expiresAt = 301000\<close> and \<open>createdAt = 1001\<close>: one millisecond short of 5 minutes.
\<close>

theorem send_otp_record_timestamps_witness:
  "deliverySucceeded (exampleEnv\<lparr> expiryClock := 1000, createdClock := 1001 \<rparr>)
     (\<lambda>address text. True) (Some ''9876543210'') None
   \<and> map_of (snd (send_otp (exampleEnv\<lparr> expiryClock := 1000, createdClock := 1001 \<rparr>)
                    (\<lambda>address text. True) [] (Some ''9876543210'') None))
            ''otp_1000_k3j9x0a1b''
       = Some (pendingRecord ''9876543210'' ''123456'' 1001 301000)
   \<and> expiresAt (pendingRecord ''9876543210'' ''123456'' 1001 301000)
       \<noteq> createdAt (pendingRecord ''9876543210'' ''123456'' 1001 301000) + 5 * 60 * 1000"
proof -
  let ?env = "exampleEnv\<lparr> expiryClock := 1000, createdClock := 1001 \<rparr>"
  have d: "deliverySucceeded ?env (\<lambda>address text. True) (Some ''9876543210'') None"
    by (simp add: deliverySucceeded_def sendAttempt_def exampleEnv_def)
  have k: "mkOtpId ?env = ''otp_1000_k3j9x0a1b''"
    by (simp add: mkOtpId_def exampleEnv_def toString_def digits_1000)
  have r: "mkRecord ?env ''9876543210'' = pendingRecord ''9876543210'' ''123456'' 1001 301000"
    by (simp add: mkRecord_def exampleEnv_def generateOTP_def toString_def digits_123456
        pendingRecord_def)
  from send_otp_record_timestamps [OF d, of "[]"]
  have "map_of (snd (send_otp ?env (\<lambda>address text. True) [] (Some ''9876543210'') None))
            (mkOtpId ?env) = Some (mkRecord ?env ''9876543210'')
     \<and> expiresAt (mkRecord ?env ''9876543210'')
         \<noteq> createdAt (mkRecord ?env ''9876543210'') + 5 * 60 * 1000"
    by (simp add: exampleEnv_def)
  then show ?thesis using d unfolding k r by blast
qed

text \<open>No later operation changes the two timestamps of a stored record.\<close>

lemma verify_otp_keeps_timestamps:
  assumes "wf_storage store" and "map_of (snd (verify_otp env store idF otpF pnF)) k = Some r'"
  shows "\<exists>r. map_of store k = Some r \<and> createdAt r' = createdAt r \<and> expiresAt r' = expiresAt r
           \<and> phoneNumber r' = phoneNumber r \<and> otp r' = otp r"
proof (cases "snd (verify_otp env store idF otpF pnF) = store")
  case True
  then show ?thesis using assms(2) by simp
next
  case False
  then obtain k0 r0 where res: "resolve store idF pnF = Some (k0, r0)"
    and upd: "snd (verify_otp env store idF otpF pnF)
        = AList.update k0 (r0\<lparr> verified := True, verifiedAt := Some (markClock env) \<rparr>) store"
    by (auto simp: verify_otp_def split: option.splits if_splits)
  have m: "map_of store k0 = Some r0" using resolve_map_of [OF assms(1) res] .
  show ?thesis
    using assms(2) m unfolding upd by (auto simp: AList.update_conv' split: if_splits)
qed

lemma sweep_keeps_records:
  "wf_storage store \<Longrightarrow> map_of (sweep now store) k = Some r \<Longrightarrow> map_of store k = Some r"
  by (simp add: sweep_filter map_of_filter_Some wf_storage_def)

lemma timerFire_keeps_records:
  "map_of (timerFire k' store) k = Some r \<Longrightarrow> map_of store k = Some r"
  by (auto simp: timerFire_def AList.delete_conv' split: if_splits)

end
